theory Spec2Isabelle
  imports Main "HOL-Library.Sublist"
begin

section \<open>JavaScript values and alert objects\<close>

text \<open>
  The fields of an alert object hold JavaScript values. The producers of the repository
  use \<^verbatim>\<open>Date.now()\<close> for \<^verbatim>\<open>id\<close> (an integer-valued number) and strings for the other
  fields; a field that is missing from the object literal reads as \<^verbatim>\<open>undefined\<close>.
  Numbers are restricted to the integer-valued ones and NaN.
\<close>

datatype jsval = JUndefined | JNull | JBool bool | JNum int | JNaN | JStr string

text \<open>\<^verbatim>\<open>a === b\<close> and \<^verbatim>\<open>a !== b\<close> on primitive values: NaN is not equal to itself.\<close>

definition strict_eq :: "jsval \<Rightarrow> jsval \<Rightarrow> bool" where
  "strict_eq a b = (a = b \<and> a \<noteq> JNaN)"

definition strict_neq :: "jsval \<Rightarrow> jsval \<Rightarrow> bool" where
  "strict_neq a b = (\<not> strict_eq a b)"

text \<open>
  An alert is an object: \<open>obj_ref\<close> is its identity (what \<^verbatim>\<open>!==\<close> compares on objects),
  the other fields are its properties. The source field \<^verbatim>\<open>type\<close> is the spec's "kind".
  No function of the source writes to a property of an alert.
\<close>

record alert =
  obj_ref :: nat
  alert_id :: jsval
  alert_type :: jsval
  title :: jsval
  message :: jsval
  details :: jsval
  timestamp :: jsval

section \<open>Array primitives\<close>

text \<open>
  \<^verbatim>\<open>Array.prototype.slice(start, end)\<close> for integer arguments: a negative argument counts
  from the end of the array, and both are clamped to the array.
\<close>

definition slice :: "int \<Rightarrow> int \<Rightarrow> 'a list \<Rightarrow> 'a list" where
  "slice start fin xs =
     (let len = int (length xs);
          k = (if start < 0 then max (len + start) 0 else min start len);
          final = (if fin < 0 then max (len + fin) 0 else min fin len)
      in take (nat (final - k)) (drop (nat k) xs))"

text \<open>\<^verbatim>\<open>xs[0]\<close>: the first element, or \<^verbatim>\<open>undefined\<close> (\<open>None\<close>) on an empty array.\<close>

definition at0 :: "'a list \<Rightarrow> 'a option" where
  "at0 xs = (case xs of [] \<Rightarrow> None | x # _ \<Rightarrow> Some x)"

text \<open>\<^verbatim>\<open>x !== y\<close> where each side is an alert object or \<^verbatim>\<open>undefined\<close>.\<close>

fun obj_neq :: "alert option \<Rightarrow> alert option \<Rightarrow> bool" where
  "obj_neq (Some a) (Some b) = (obj_ref a \<noteq> obj_ref b)"
| "obj_neq None None = False"
| "obj_neq (Some a) None = True"
| "obj_neq None (Some b) = True"

section \<open>The alert store of the Dashboard page\<close>

text \<open>
  \<^verbatim>\<open>const addAlert = (alert) => { setAlerts(prev => [alert, ...prev].slice(0, 5)); };\<close>
  \<^verbatim>\<open>const dismissAlert = (id) => { setAlerts(prev => prev.filter(alert => alert.id !== id)); };\<close>
  Both are given here as the state updater they pass to \<^verbatim>\<open>setAlerts\<close>.
\<close>

definition addAlert :: "alert \<Rightarrow> alert list \<Rightarrow> alert list" where
  "addAlert alert prev = slice 0 5 (alert # prev)"

definition dismissAlert :: "jsval \<Rightarrow> alert list \<Rightarrow> alert list" where
  "dismissAlert i prev = filter (\<lambda>alert. strict_neq (alert_id alert) i) prev"

text \<open>
  \<^verbatim>\<open>const recentAlerts = [...alerts].slice(0, maxAlerts);\<close> is the visible window
  (the spec's \<^verbatim>\<open>visible(limit)\<close>).
\<close>

definition visible :: "int \<Rightarrow> alert list \<Rightarrow> alert list" where
  "visible maxAlerts als = slice 0 maxAlerts als"

text \<open>A sequence of \<^verbatim>\<open>addAlert\<close> calls, the first alert of the list added first.\<close>

fun add_all :: "alert list \<Rightarrow> alert list \<Rightarrow> alert list" where
  "add_all [] s = s"
| "add_all (a # as) s = add_all as (addAlert a s)"

text \<open>
  The spec's wording of dismiss, "removes the first entry whose id equals the argument",
  written out for comparison with \<open>dismissAlert\<close>.
\<close>

fun spec_dismiss_first :: "jsval \<Rightarrow> alert list \<Rightarrow> alert list" where
  "spec_dismiss_first i [] = []"
| "spec_dismiss_first i (a # s) =
     (if strict_eq (alert_id a) i then s else a # spec_dismiss_first i s)"

section \<open>The AlertNotifications component mounted in the Dashboard\<close>

text \<open>
  A pending \<^verbatim>\<open>setTimeout\<close>: its handle, the milliseconds left, and the
  \<^verbatim>\<open>visibleAlerts\<close> array its callback closed over.
\<close>

record timer =
  tid :: nat
  remaining :: nat
  captured :: "alert list"

text \<open>
  The state of the page: the Dashboard's \<^verbatim>\<open>alerts\<close>, the component's prop
  \<^verbatim>\<open>maxAlerts\<close> and state \<^verbatim>\<open>visibleAlerts\<close>, the pending timeouts, the handle held by the
  cleanup function of the auto-dismiss effect's last run, and two logs: the types passed
  to \<^verbatim>\<open>playAlertSound\<close> that reached \<^verbatim>\<open>console.log\<close>, and the ids passed to
  \<^verbatim>\<open>onDismiss\<close>.
\<close>

record sys =
  alerts :: "alert list"
  maxAlerts :: int
  visibleAlerts :: "alert list"
  timers :: "timer list"
  cleanup :: "nat option"
  next_tid :: nat
  played :: "jsval list"
  dismissed :: "jsval list"

definition audioEnabled :: bool where
  "audioEnabled = True"

definition playAlertSound :: "jsval \<Rightarrow> sys \<Rightarrow> sys" where
  "playAlertSound t st = (if \<not> audioEnabled then st else st\<lparr>played := played st @ [t]\<rparr>)"

text \<open>
  The effect on \<^verbatim>\<open>[alerts, maxAlerts]\<close>; \<open>vis\<close> is the value of \<^verbatim>\<open>visibleAlerts\<close> in the
  render that created the effect.
\<close>

definition alerts_effect :: "alert list \<Rightarrow> sys \<Rightarrow> sys" where
  "alerts_effect vis st =
     (let recentAlerts = slice 0 (maxAlerts st) (alerts st);
          st1 = st\<lparr>visibleAlerts := recentAlerts\<rparr>
      in case recentAlerts of
           [] \<Rightarrow> st1
         | r0 # _ \<Rightarrow> if obj_neq (Some r0) (at0 vis)
                     then playAlertSound (alert_type r0) st1 else st1)"

definition clearTimeout :: "nat \<Rightarrow> sys \<Rightarrow> sys" where
  "clearTimeout t st = st\<lparr>timers := filter (\<lambda>u. tid u \<noteq> t) (timers st)\<rparr>"

definition setTimeout :: "alert list \<Rightarrow> nat \<Rightarrow> sys \<Rightarrow> nat \<times> sys" where
  "setTimeout vis delay st =
     (next_tid st,
      st\<lparr>timers := timers st @ [\<lparr>tid = next_tid st, remaining = delay, captured = vis\<rparr>],
         next_tid := Suc (next_tid st)\<rparr>)"

text \<open>The cleanup \<^verbatim>\<open>return () => clearTimeout(timer)\<close> of the previous run, if it armed one.\<close>

definition autodismiss_cleanup :: "sys \<Rightarrow> sys" where
  "autodismiss_cleanup st =
     (case cleanup st of
        None \<Rightarrow> st
      | Some t \<Rightarrow> (clearTimeout t st)\<lparr>cleanup := None\<rparr>)"

text \<open>The effect on \<^verbatim>\<open>[visibleAlerts, onDismiss]\<close>, in a render where \<^verbatim>\<open>visibleAlerts\<close> is \<open>vis\<close>.\<close>

definition autodismiss_effect :: "alert list \<Rightarrow> sys \<Rightarrow> sys" where
  "autodismiss_effect vis st =
     (if length vis = 0 then st\<lparr>cleanup := None\<rparr>
      else (let (t, st1) = setTimeout vis 10000 st in st1\<lparr>cleanup := Some t\<rparr>))"

text \<open>
  A render of the Dashboard and the commits that follow it. The Dashboard creates
  \<^verbatim>\<open>dismissAlert\<close> anew in every render, so the prop \<^verbatim>\<open>onDismiss\<close> differs each time and
  the auto-dismiss effect runs again. \<open>alerts_changed\<close> says whether \<^verbatim>\<open>alerts\<close> is a new
  array (it is after every \<^verbatim>\<open>setAlerts\<close>, whose updaters always build one); then the
  first effect runs too, and its \<^verbatim>\<open>setVisibleAlerts\<close> with a fresh array makes the
  component render once more, where only the auto-dismiss effect has a changed dependency.
\<close>

definition rerender :: "bool \<Rightarrow> sys \<Rightarrow> sys" where
  "rerender alerts_changed st =
     (let vis = visibleAlerts st;
          st1 = autodismiss_cleanup st;
          st2 = (if alerts_changed then alerts_effect vis st1 else st1);
          st3 = autodismiss_effect vis st2
      in if alerts_changed
         then autodismiss_effect (visibleAlerts st3) (autodismiss_cleanup st3)
         else st3)"

text \<open>
  A call of the prop \<^verbatim>\<open>onDismiss\<close>, which the Dashboard binds to \<^verbatim>\<open>dismissAlert\<close>, and a
  call of \<^verbatim>\<open>addAlert\<close> by a producer, each with the render its \<^verbatim>\<open>setAlerts\<close> causes.
\<close>

definition onDismiss :: "jsval \<Rightarrow> sys \<Rightarrow> sys" where
  "onDismiss i st =
     rerender True (st\<lparr>dismissed := dismissed st @ [i], alerts := dismissAlert i (alerts st)\<rparr>)"

definition add :: "alert \<Rightarrow> sys \<Rightarrow> sys" where
  "add a st = rerender True (st\<lparr>alerts := addAlert a (alerts st)\<rparr>)"

text \<open>
  The timeout's callback:
  \<^verbatim>\<open>if (visibleAlerts.length > 0 && onDismiss) onDismiss(visibleAlerts[visibleAlerts.length - 1].id)\<close>.
  The Dashboard always passes \<^verbatim>\<open>onDismiss\<close>.
\<close>

definition timeout_callback :: "alert list \<Rightarrow> sys \<Rightarrow> sys" where
  "timeout_callback vis st =
     (if length vis > 0 then onDismiss (alert_id (last vis)) st else st)"

text \<open>A due timeout runs unless it has been cleared in the meantime.\<close>

definition fire :: "timer \<Rightarrow> sys \<Rightarrow> sys" where
  "fire t st =
     (if tid t \<in> set (map tid (timers st))
      then timeout_callback (captured t) (clearTimeout (tid t) st)
      else st)"

text \<open>One millisecond passes; the timeouts that become due fire in the order of their creation.\<close>

definition tick :: "sys \<Rightarrow> sys" where
  "tick st =
     (let st1 = st\<lparr>timers := map (\<lambda>t. t\<lparr>remaining := remaining t - 1\<rparr>) (timers st)\<rparr>;
          due = filter (\<lambda>t. remaining t = 0) (timers st1)
      in foldl (\<lambda>s t. fire t s) st1 due)"

primrec elapse :: "nat \<Rightarrow> sys \<Rightarrow> sys" where
  "elapse 0 st = st"
| "elapse (Suc n) st = elapse n (tick st)"

text \<open>The two mutating operations of the store, as one call each.\<close>

datatype mutation = MAdd alert | MDismiss jsval

fun mutate :: "mutation \<Rightarrow> alert list \<Rightarrow> alert list" where
  "mutate (MAdd a) s = addAlert a s"
| "mutate (MDismiss i) s = dismissAlert i s"

fun mutate_all :: "mutation list \<Rightarrow> alert list \<Rightarrow> alert list" where
  "mutate_all [] s = s"
| "mutate_all (m # ms) s = mutate_all ms (mutate m s)"

text \<open>
  Calls that share a render. \<^verbatim>\<open>addAlert\<close> and \<^verbatim>\<open>dismissAlert\<close> only queue their updater
  with \<^verbatim>\<open>setAlerts\<close>; the page is created with \<^verbatim>\<open>createRoot\<close>, so the updaters queued by
  one handler are applied in order and committed by one render. \<open>dismissed_ids\<close> are the
  ids the batch passes to \<^verbatim>\<open>dismissAlert\<close>. Without a call nothing is queued and nothing
  renders.
\<close>

fun dismissed_ids :: "mutation list \<Rightarrow> jsval list" where
  "dismissed_ids [] = []"
| "dismissed_ids (MAdd a # ms) = dismissed_ids ms"
| "dismissed_ids (MDismiss i # ms) = i # dismissed_ids ms"

definition batch :: "mutation list \<Rightarrow> sys \<Rightarrow> sys" where
  "batch ms st =
     (if ms = [] then st
      else rerender True
             (st\<lparr>dismissed := dismissed st @ dismissed_ids ms,
                alerts := mutate_all ms (alerts st)\<rparr>))"

text \<open>
  What can happen to the mounted page: a producer adds an alert or the close button of an
  alert calls \<^verbatim>\<open>onDismiss\<close>, the call having a render of its own (\<open>Call\<close>, as in every
  handler of the repository); a handler makes several such calls that share one render
  (\<open>Batch\<close>); the Dashboard renders for a reason of its own (its \<^verbatim>\<open>setGlitchActive\<close>
  interval, for one); or time passes.
\<close>

datatype event = Call mutation | Batch "mutation list" | ParentRender | Elapse nat

fun sys_step :: "event \<Rightarrow> sys \<Rightarrow> sys" where
  "sys_step (Call (MAdd a)) st = add a st"
| "sys_step (Call (MDismiss i)) st = onDismiss i st"
| "sys_step (Batch ms) st = batch ms st"
| "sys_step ParentRender st = rerender False st"
| "sys_step (Elapse n) st = elapse n st"

fun run :: "event list \<Rightarrow> sys \<Rightarrow> sys" where
  "run [] st = st"
| "run (e # es) st = run es (sys_step e st)"

text \<open>The page before its first commit, and after it (the Dashboard passes no \<^verbatim>\<open>maxAlerts\<close>, so the default 3 applies).\<close>

definition initial :: sys where
  "initial = \<lparr>alerts = [], maxAlerts = 3, visibleAlerts = [], timers = [], cleanup = None,
              next_tid = 0, played = [], dismissed = []\<rparr>"

definition mount :: sys where
  "mount = rerender True initial"

section \<open>Arrays as heap objects\<close>

text \<open>
  For the question whether a snapshot is a copy or a live view, arrays are objects in a
  heap: the heap is the list of the arrays allocated so far and an array's address is its
  index. Every array expression of the source (\<^verbatim>\<open>[alert, ...prev]\<close>, \<^verbatim>\<open>[...alerts]\<close>,
  \<^verbatim>\<open>slice\<close>, \<^verbatim>\<open>filter\<close>) allocates a new array; none writes to an existing one.
\<close>

type_synonym heap = "alert list list"

definition alloc :: "alert list \<Rightarrow> heap \<Rightarrow> nat \<times> heap" where
  "alloc xs h = (length h, h @ [xs])"

definition deref :: "heap \<Rightarrow> nat \<Rightarrow> alert list" where
  "deref h r = (if r < length h then h ! r else [])"

text \<open>\<^verbatim>\<open>[...alerts].slice(0, maxAlerts)\<close>\<close>

definition h_visible :: "int \<Rightarrow> nat \<Rightarrow> heap \<Rightarrow> nat \<times> heap" where
  "h_visible limit als h =
     (let (c, h1) = alloc (deref h als) h
      in alloc (slice 0 limit (deref h1 c)) h1)"

text \<open>\<^verbatim>\<open>[alert, ...prev].slice(0, 5)\<close>\<close>

definition h_addAlert :: "alert \<Rightarrow> nat \<Rightarrow> heap \<Rightarrow> nat \<times> heap" where
  "h_addAlert alert prev h =
     (let (c, h1) = alloc (alert # deref h prev) h
      in alloc (slice 0 5 (deref h1 c)) h1)"

text \<open>\<^verbatim>\<open>prev.filter(alert => alert.id !== id)\<close>\<close>

definition h_dismissAlert :: "jsval \<Rightarrow> nat \<Rightarrow> heap \<Rightarrow> nat \<times> heap" where
  "h_dismissAlert i prev h =
     alloc (filter (\<lambda>alert. strict_neq (alert_id alert) i) (deref h prev)) h"

text \<open>The state \<^verbatim>\<open>alerts\<close> is a reference; a mutation replaces it by the new array's.\<close>

fun h_mutate :: "mutation \<Rightarrow> nat \<times> heap \<Rightarrow> nat \<times> heap" where
  "h_mutate (MAdd a) (r, h) = h_addAlert a r h"
| "h_mutate (MDismiss i) (r, h) = h_dismissAlert i r h"

fun h_mutations :: "mutation list \<Rightarrow> nat \<times> heap \<Rightarrow> nat \<times> heap" where
  "h_mutations [] rh = rh"
| "h_mutations (m # ms) rh = h_mutations ms (h_mutate m rh)"

section \<open>Auxiliary notions for the properties\<close>

text \<open>
  What the first effect passes to \<^verbatim>\<open>playAlertSound\<close>, given the new and the previous
  visible window: the condition
  \<^verbatim>\<open>recentAlerts.length > 0 && recentAlerts[0] !== visibleAlerts[0]\<close>.
\<close>

definition head_sound :: "alert list \<Rightarrow> alert list \<Rightarrow> jsval list" where
  "head_sound new old =
     (case new of
        [] \<Rightarrow> []
      | r0 # _ \<Rightarrow> if obj_neq (Some r0) (at0 old) then [alert_type r0] else [])"

text \<open>
  The condition of the first effect seen from the store: after a render the store has a
  head, and it is another object than the head before the render (or there was none).
  \<open>render_sounds\<close> lists, for a sequence of renders each committing a batch of calls on
  the store \<open>s\<close>, the \<^verbatim>\<open>type\<close> of the new head for each render that changes the head in
  this sense.
\<close>

definition head_changed :: "alert list \<Rightarrow> alert list \<Rightarrow> bool" where
  "head_changed s s' = (s' \<noteq> [] \<and> obj_neq (at0 s') (at0 s))"

fun render_sounds :: "alert list \<Rightarrow> mutation list list \<Rightarrow> jsval list" where
  "render_sounds s [] = []"
| "render_sounds s (b # bs) =
     (if head_changed s (mutate_all b s) then [alert_type (hd (mutate_all b s))] else [])
     @ render_sounds (mutate_all b s) bs"

text \<open>
  The spec's side-effect contract, in the spec's words: the identity of an alert is its
  \<^verbatim>\<open>id\<close>, and every add or dismiss operation that changes the identity of the head
  invokes the side effect once, with the new head's kind. \<open>spec_sounds\<close> lists these
  kinds over a sequence of operations on the store \<open>s\<close>.
\<close>

fun id_neq :: "alert option \<Rightarrow> alert option \<Rightarrow> bool" where
  "id_neq (Some a) (Some b) = (alert_id a \<noteq> alert_id b)"
| "id_neq None None = False"
| "id_neq (Some a) None = True"
| "id_neq None (Some b) = True"

definition spec_head_changed :: "alert list \<Rightarrow> alert list \<Rightarrow> bool" where
  "spec_head_changed s s' = (s' \<noteq> [] \<and> id_neq (at0 s') (at0 s))"

fun spec_sounds :: "alert list \<Rightarrow> mutation list \<Rightarrow> jsval list" where
  "spec_sounds s [] = []"
| "spec_sounds s (m # ms) =
     (if spec_head_changed s (mutate m s) then [alert_type (hd (mutate m s))] else [])
     @ spec_sounds (mutate m s) ms"

text \<open>
  The alerts a sequence of operations adds, and the condition under which the id of an
  alert stands for the object: among the given alerts, two are the same object exactly
  when they have the same id.
\<close>

fun added :: "mutation list \<Rightarrow> alert list" where
  "added [] = []"
| "added (MAdd a # ms) = a # added ms"
| "added (MDismiss i # ms) = added ms"

definition ids_identify :: "alert list \<Rightarrow> bool" where
  "ids_identify xs =
     list_all (\<lambda>a. list_all (\<lambda>b. (obj_ref a = obj_ref b) = (alert_id a = alert_id b)) xs) xs"

text \<open>
  Every pending timeout is the one the auto-dismiss effect's cleanup holds; and the
  stronger state between events: no timeout while nothing is visible, otherwise exactly
  one, which closed over the current visible window and has between 1 and 10000 ms left.
\<close>

definition owned :: "sys \<Rightarrow> bool" where
  "owned st = list_all (\<lambda>t. cleanup st = Some (tid t)) (timers st)"

definition timer_ok :: "sys \<Rightarrow> bool" where
  "timer_ok st =
     (case timers st of
        [] \<Rightarrow> visibleAlerts st = [] \<and> cleanup st = None
      | [t] \<Rightarrow> visibleAlerts st \<noteq> [] \<and> cleanup st = Some (tid t)
               \<and> captured t = visibleAlerts st \<and> 0 < remaining t \<and> remaining t \<le> 10000
      | _ \<Rightarrow> False)"

text \<open>
  The state right after a render: as \<open>timer_ok\<close>, with the full 10000 ms left. And the
  state of the page between events: the visible window is the slice of the store, and the
  timeouts are in order.
\<close>

definition armed :: "sys \<Rightarrow> bool" where
  "armed st =
     (case timers st of
        [] \<Rightarrow> visibleAlerts st = [] \<and> cleanup st = None
      | [t] \<Rightarrow> visibleAlerts st \<noteq> [] \<and> cleanup st = Some (tid t)
               \<and> captured t = visibleAlerts st \<and> remaining t = 10000
      | _ \<Rightarrow> False)"

definition settled :: "sys \<Rightarrow> bool" where
  "settled st = (visibleAlerts st = visible (maxAlerts st) (alerts st) \<and> timer_ok st)"

text \<open>An alert object for concrete instances, shaped like the ones the Dashboard creates.\<close>

definition example_alert :: "nat \<Rightarrow> int \<Rightarrow> string \<Rightarrow> alert" where
  "example_alert r i k =
     \<lparr>obj_ref = r, alert_id = JNum i, alert_type = JStr k, title = JStr ''WALLET CONNECTED'',
      message = JStr ''Successfully connected to wallet'', details = JStr ''Balance: 1.234 SOL'',
      timestamp = JStr ''12:00:00''\<rparr>"

section \<open>Basic facts about the store operations\<close>

lemma slice0:
  "slice 0 n xs = (if n < 0 then take (nat (int (length xs) + n)) xs else take (nat n) xs)"
  by (auto simp: slice_def Let_def min_def max_def)

lemma addAlert_eq: "addAlert a s = a # take 4 s"
  by (simp add: addAlert_def slice0)

lemma visible_eq:
  "visible m s = (if m < 0 then take (nat (int (length s) + m)) s else take (nat m) s)"
  by (simp add: visible_def slice0)

lemma visible_prefix: "prefix (visible m s) s"
  by (simp add: visible_eq take_is_prefix)

lemma visible_Nil [simp]: "visible m [] = []"
  by (simp add: visible_eq)

lemma visible_Cons_hd: "visible m (a # s) = r0 # rs \<Longrightarrow> r0 = a"
  using visible_prefix [of m "a # s"] by (auto simp: prefix_def)

lemma at0_visible: "1 \<le> m \<Longrightarrow> at0 (visible m s) = at0 s"
  by (cases s) (auto simp: visible_eq at0_def take_Cons' split: list.splits)

lemma length_addAlert: "length (addAlert a s) \<le> 5"
  by (simp add: addAlert_eq)

lemma length_add_all: "as \<noteq> [] \<or> length s \<le> 5 \<Longrightarrow> length (add_all as s) \<le> 5"
proof (induction as arbitrary: s)
  case Nil
  then show ?case by simp
next
  case (Cons a as)
  have "length (addAlert a s) \<le> 5" by (rule length_addAlert)
  then show ?case using Cons.IH [of "addAlert a s"] by simp
qed

lemma addAlert_full: "length s = 5 \<Longrightarrow> addAlert a s = a # butlast s"
  by (simp add: addAlert_eq butlast_conv_take)

lemma addAlert_room: "length s < 5 \<Longrightarrow> addAlert a s = a # s"
  by (simp add: addAlert_eq)

section \<open>What each function of the component leaves alone\<close>

lemma clearTimeout_proj [simp]:
  "alerts (clearTimeout t st) = alerts st"
  "maxAlerts (clearTimeout t st) = maxAlerts st"
  "visibleAlerts (clearTimeout t st) = visibleAlerts st"
  "played (clearTimeout t st) = played st"
  "dismissed (clearTimeout t st) = dismissed st"
  "cleanup (clearTimeout t st) = cleanup st"
  "next_tid (clearTimeout t st) = next_tid st"
  "timers (clearTimeout t st) = filter (\<lambda>u. tid u \<noteq> t) (timers st)"
  by (simp_all add: clearTimeout_def)

lemma autodismiss_cleanup_proj [simp]:
  "alerts (autodismiss_cleanup st) = alerts st"
  "maxAlerts (autodismiss_cleanup st) = maxAlerts st"
  "visibleAlerts (autodismiss_cleanup st) = visibleAlerts st"
  "played (autodismiss_cleanup st) = played st"
  "dismissed (autodismiss_cleanup st) = dismissed st"
  "next_tid (autodismiss_cleanup st) = next_tid st"
  "cleanup (autodismiss_cleanup st) = None"
  by (simp_all add: autodismiss_cleanup_def split: option.splits)

lemma autodismiss_effect_proj [simp]:
  "alerts (autodismiss_effect vis st) = alerts st"
  "maxAlerts (autodismiss_effect vis st) = maxAlerts st"
  "visibleAlerts (autodismiss_effect vis st) = visibleAlerts st"
  "played (autodismiss_effect vis st) = played st"
  "dismissed (autodismiss_effect vis st) = dismissed st"
  by (simp_all add: autodismiss_effect_def setTimeout_def)

lemma playAlertSound_proj [simp]:
  "alerts (playAlertSound k st) = alerts st"
  "maxAlerts (playAlertSound k st) = maxAlerts st"
  "visibleAlerts (playAlertSound k st) = visibleAlerts st"
  "played (playAlertSound k st) = played st @ [k]"
  "dismissed (playAlertSound k st) = dismissed st"
  "timers (playAlertSound k st) = timers st"
  "cleanup (playAlertSound k st) = cleanup st"
  "next_tid (playAlertSound k st) = next_tid st"
  by (simp_all add: playAlertSound_def audioEnabled_def)

lemma alerts_effect_proj [simp]:
  "alerts (alerts_effect vis st) = alerts st"
  "maxAlerts (alerts_effect vis st) = maxAlerts st"
  "visibleAlerts (alerts_effect vis st) = visible (maxAlerts st) (alerts st)"
  "played (alerts_effect vis st)
     = played st @ head_sound (visible (maxAlerts st) (alerts st)) vis"
  "dismissed (alerts_effect vis st) = dismissed st"
  "timers (alerts_effect vis st) = timers st"
  "cleanup (alerts_effect vis st) = cleanup st"
  "next_tid (alerts_effect vis st) = next_tid st"
  by (simp_all add: alerts_effect_def visible_def head_sound_def Let_def split: list.splits)

lemma rerender_proj [simp]:
  "alerts (rerender b st) = alerts st"
  "maxAlerts (rerender b st) = maxAlerts st"
  "dismissed (rerender b st) = dismissed st"
  "visibleAlerts (rerender b st)
     = (if b then visible (maxAlerts st) (alerts st) else visibleAlerts st)"
  "played (rerender b st)
     = (if b then played st @ head_sound (visible (maxAlerts st) (alerts st)) (visibleAlerts st)
        else played st)"
  by (simp_all add: rerender_def Let_def)

lemma add_proj [simp]:
  "alerts (add a st) = addAlert a (alerts st)"
  "dismissed (add a st) = dismissed st"
  "maxAlerts (add a st) = maxAlerts st"
  "visibleAlerts (add a st) = visible (maxAlerts st) (addAlert a (alerts st))"
  "played (add a st)
     = played st @ head_sound (visible (maxAlerts st) (addAlert a (alerts st))) (visibleAlerts st)"
  by (simp_all add: add_def)

lemma onDismiss_proj [simp]:
  "alerts (onDismiss i st) = dismissAlert i (alerts st)"
  "dismissed (onDismiss i st) = dismissed st @ [i]"
  "maxAlerts (onDismiss i st) = maxAlerts st"
  "visibleAlerts (onDismiss i st) = visible (maxAlerts st) (dismissAlert i (alerts st))"
  "played (onDismiss i st)
     = played st @ head_sound (visible (maxAlerts st) (dismissAlert i (alerts st))) (visibleAlerts st)"
  by (simp_all add: onDismiss_def)

lemma head_sound_add:
  "head_sound (visible m (addAlert a s)) old = []
   \<or> head_sound (visible m (addAlert a s)) old = [alert_type a]"
  by (auto simp: head_sound_def addAlert_eq split: list.splits dest!: visible_Cons_hd)

section \<open>The store: capacity, insertion, dismissal\<close>

text \<open>
  C1. After any non-empty sequence of \<^verbatim>\<open>addAlert\<close> calls from any store, and after any
  sequence at all from a store within capacity, the store holds at most 5 entries. An add
  to a store at capacity drops exactly its last (least recently inserted) entry, and an add
  below capacity drops nothing. On the page, an add calls \<^verbatim>\<open>onDismiss\<close> for no entry, and
  the only sound it can cause is the one for the added alert itself.
\<close>

theorem add_capacity_and_eviction:
  "(as \<noteq> [] \<or> length s \<le> 5 \<longrightarrow> length (add_all as s) \<le> 5)
   \<and> (length s = 5 \<longrightarrow> addAlert a s = a # butlast s \<and> addAlert a s @ [last s] = a # s)
   \<and> (length s < 5 \<longrightarrow> addAlert a s = a # s)
   \<and> alerts (add a st) = addAlert a (alerts st)
   \<and> dismissed (add a st) = dismissed st
   \<and> (played (add a st) = played st \<or> played (add a st) = played st @ [alert_type a])"
proof -
  have 1: "as \<noteq> [] \<or> length s \<le> 5 \<longrightarrow> length (add_all as s) \<le> 5"
    using length_add_all by blast
  have 2: "length s = 5 \<longrightarrow> addAlert a s = a # butlast s \<and> addAlert a s @ [last s] = a # s"
  proof
    assume l: "length s = 5"
    then have "s \<noteq> []" by auto
    then have "butlast s @ [last s] = s" by simp
    with l show "addAlert a s = a # butlast s \<and> addAlert a s @ [last s] = a # s"
      by (simp add: addAlert_full)
  qed
  have 3: "length s < 5 \<longrightarrow> addAlert a s = a # s"
    by (simp add: addAlert_room)
  have 4: "played (add a st) = played st \<or> played (add a st) = played st @ [alert_type a]"
    using head_sound_add [of "maxAlerts st" a "alerts st" "visibleAlerts st"] by auto
  have 5: "alerts (add a st) = addAlert a (alerts st)" by simp
  have 6: "dismissed (add a st) = dismissed st" by simp
  from 1 2 3 4 5 6 show ?thesis by blast
qed

theorem add_capacity_and_eviction_witness:
  "length (add_all [example_alert 6 6 ''info'']
       [example_alert 5 5 ''info'', example_alert 4 4 ''info'', example_alert 3 3 ''info'',
        example_alert 2 2 ''info'', example_alert 1 1 ''info'']) \<le> 5
   \<and> addAlert (example_alert 6 6 ''info'')
       [example_alert 5 5 ''info'', example_alert 4 4 ''info'', example_alert 3 3 ''info'',
        example_alert 2 2 ''info'', example_alert 1 1 ''info'']
     = [example_alert 6 6 ''info'', example_alert 5 5 ''info'', example_alert 4 4 ''info'',
        example_alert 3 3 ''info'', example_alert 2 2 ''info'']"
  using add_capacity_and_eviction [of "[example_alert 6 6 ''info'']"
       "[example_alert 5 5 ''info'', example_alert 4 4 ''info'', example_alert 3 3 ''info'',
        example_alert 2 2 ''info'', example_alert 1 1 ''info'']" "example_alert 6 6 ''info''" initial]
  by simp

text \<open>
  C8. \<^verbatim>\<open>addAlert\<close> has no failing branch: for every alert object, whatever its fields
  hold (a missing \<^verbatim>\<open>message\<close> or \<^verbatim>\<open>type\<close> is the value \<^verbatim>\<open>undefined\<close>), the new store is
  that very object followed by the first four entries of the old store; and so it is on the
  page after the render that follows the call.
\<close>

theorem add_always_succeeds:
  "addAlert a prev = a # take 4 prev
   \<and> alerts (sys_step (Call (MAdd a)) st) = a # take 4 (alerts st)"
  by (simp add: addAlert_eq)

text \<open>
  C6. When no entry of the store has an id that is \<^verbatim>\<open>===\<close> to the argument,
  \<^verbatim>\<open>dismissAlert\<close> returns the same sequence; the function has no failing branch, and on
  the page the store after the call and its render is the store before.
\<close>

theorem dismiss_absent_id:
  assumes "\<not> list_ex (\<lambda>a. strict_eq (alert_id a) i) s"
  shows "dismissAlert i s = s \<and> alerts (sys_step (Call (MDismiss i)) (st\<lparr>alerts := s\<rparr>)) = s"
  using assms by (simp add: dismissAlert_def strict_neq_def list_ex_iff)

theorem dismiss_absent_id_witness:
  "\<not> list_ex (\<lambda>a. strict_eq (alert_id a) (JStr ''unknown-id'')) [example_alert 1 1 ''info'']
   \<and> dismissAlert (JStr ''unknown-id'') [example_alert 1 1 ''info''] = [example_alert 1 1 ''info'']"
proof -
  have h: "\<not> list_ex (\<lambda>a. strict_eq (alert_id a) (JStr ''unknown-id'')) [example_alert 1 1 ''info'']"
    by (simp add: strict_eq_def example_alert_def)
  from h dismiss_absent_id [OF h, of initial] show ?thesis by blast
qed

section \<open>Dismissal and the frame of the mutations\<close>

lemma dismissAlert_first:
  "length (filter (\<lambda>a. strict_eq (alert_id a) i) s) \<le> 1 \<Longrightarrow> dismissAlert i s = spec_dismiss_first i s"
proof (induction s)
  case Nil
  then show ?case by (simp add: dismissAlert_def)
next
  case (Cons a s)
  show ?case
  proof (cases "strict_eq (alert_id a) i")
    case True
    with Cons.prems have "filter (\<lambda>a. strict_eq (alert_id a) i) s = []" by simp
    then have "filter (\<lambda>a. strict_neq (alert_id a) i) s = s"
      by (simp add: strict_neq_def filter_empty_conv filter_id_conv)
    with True show ?thesis by (simp add: dismissAlert_def strict_neq_def)
  next
    case False
    with Cons show ?thesis by (simp add: dismissAlert_def strict_neq_def)
  qed
qed

lemma dismissAlert_after_first: "dismissAlert i (spec_dismiss_first i s) = dismissAlert i s"
  by (induction s) (auto simp: dismissAlert_def strict_neq_def)

text \<open>
  C3, as the code has it. \<^verbatim>\<open>dismissAlert\<close> removes every entry whose id is \<^verbatim>\<open>===\<close> to the
  argument and no other entry, keeping the order of the rest. When at most one entry has
  that id, this is the removal of the first such entry; in general it is what remains
  after removing the first such entry and then all the further ones.
\<close>

theorem dismiss_removes_all_matching:
  "list_all (\<lambda>a. strict_neq (alert_id a) i) (dismissAlert i s)
   \<and> filter (\<lambda>a. strict_neq (alert_id a) i) (dismissAlert i s) = filter (\<lambda>a. strict_neq (alert_id a) i) s
   \<and> subseq (dismissAlert i s) s
   \<and> (length (filter (\<lambda>a. strict_eq (alert_id a) i) s) \<le> 1 \<longrightarrow> dismissAlert i s = spec_dismiss_first i s)
   \<and> dismissAlert i s = dismissAlert i (spec_dismiss_first i s)"
proof -
  have 1: "list_all (\<lambda>a. strict_neq (alert_id a) i) (dismissAlert i s)"
    by (simp add: dismissAlert_def list_all_iff)
  have 2: "filter (\<lambda>a. strict_neq (alert_id a) i) (dismissAlert i s) = filter (\<lambda>a. strict_neq (alert_id a) i) s"
    by (simp add: dismissAlert_def)
  have 3: "subseq (dismissAlert i s) s"
    by (simp add: dismissAlert_def)
  from 1 2 3 dismissAlert_first [of i s] dismissAlert_after_first [of i s] show ?thesis
    by simp
qed

theorem dismiss_removes_all_matching_witness:
  "length (filter (\<lambda>a. strict_eq (alert_id a) (JNum 2)) [example_alert 3 3 ''info'', example_alert 2 2 ''info'', example_alert 1 1 ''info'']) \<le> 1
   \<and> dismissAlert (JNum 2) [example_alert 3 3 ''info'', example_alert 2 2 ''info'', example_alert 1 1 ''info'']
       = [example_alert 3 3 ''info'', example_alert 1 1 ''info'']"
  using dismiss_removes_all_matching [of "JNum 2" "[example_alert 3 3 ''info'', example_alert 2 2 ''info'', example_alert 1 1 ''info'']"]
  by (simp add: strict_eq_def example_alert_def)

text \<open>
  Two entries with the id 7: removing the first such entry would leave the second, and
  \<^verbatim>\<open>dismissAlert\<close> leaves none.
\<close>

theorem dismiss_first_only_counterexample:
  "strict_eq (alert_id (example_alert 1 7 ''info'')) (JNum 7)
   \<and> strict_eq (alert_id (example_alert 2 7 ''info'')) (JNum 7)
   \<and> spec_dismiss_first (JNum 7) [example_alert 1 7 ''info'', example_alert 2 7 ''info''] = [example_alert 2 7 ''info'']
   \<and> dismissAlert (JNum 7) [example_alert 1 7 ''info'', example_alert 2 7 ''info''] = []
   \<and> dismissAlert (JNum 7) [example_alert 1 7 ''info'', example_alert 2 7 ''info'']
       \<noteq> spec_dismiss_first (JNum 7) [example_alert 1 7 ''info'', example_alert 2 7 ''info'']"
  by (simp add: dismissAlert_def strict_neq_def strict_eq_def example_alert_def)

text \<open>
  C9. After \<^verbatim>\<open>addAlert\<close> the entries behind the new head are the first four entries of
  the old store, unchanged and in order: a prefix of the old store, which lacks at most one
  entry (the last) when the old store was within capacity. After \<^verbatim>\<open>dismissAlert\<close> the
  store is a subsequence of the old one, and the entries whose id differs from the argument
  are the same sequence before and after.
\<close>

theorem mutation_frame:
  "tl (addAlert a s) = take 4 s
   \<and> prefix (tl (addAlert a s)) s
   \<and> (length s \<le> 5 \<longrightarrow> length s - length (tl (addAlert a s)) \<le> 1)
   \<and> subseq (dismissAlert i s) s
   \<and> filter (\<lambda>x. strict_neq (alert_id x) i) (dismissAlert i s) = filter (\<lambda>x. strict_neq (alert_id x) i) s"
  by (auto simp add: addAlert_eq dismissAlert_def take_is_prefix)

theorem mutation_frame_witness:
  "length [example_alert 5 5 ''info'', example_alert 4 4 ''info'', example_alert 3 3 ''info'',
        example_alert 2 2 ''info'', example_alert 1 1 ''info''] \<le> 5
   \<and> tl (addAlert (example_alert 6 6 ''info'') [example_alert 5 5 ''info'', example_alert 4 4 ''info'', example_alert 3 3 ''info'',
        example_alert 2 2 ''info'', example_alert 1 1 ''info''])
      = [example_alert 5 5 ''info'', example_alert 4 4 ''info'', example_alert 3 3 ''info'',
        example_alert 2 2 ''info'']"
  using mutation_frame [of "example_alert 6 6 ''info''" "[example_alert 5 5 ''info'', example_alert 4 4 ''info'', example_alert 3 3 ''info'',
        example_alert 2 2 ''info'', example_alert 1 1 ''info'']" "JNum 0"]
  by simp

section \<open>The visible window as a snapshot\<close>

lemma deref_prefix: "r < length h \<Longrightarrow> prefix h h' \<Longrightarrow> deref h' r = deref h r"
  by (auto simp: deref_def prefix_def nth_append)

lemma h_mutate_sound:
  "h_mutate m (r, h) = (r', h') \<Longrightarrow>
     prefix h h' \<and> r' < length h' \<and> deref h' r' = mutate m (deref h r)"
  by (cases m) (auto simp: h_addAlert_def h_dismissAlert_def alloc_def deref_def addAlert_def
      dismissAlert_def nth_append Let_def)

lemma h_mutations_sound:
  "h_mutations ms (r, h) = (r', h') \<Longrightarrow>
     prefix h h' \<and> deref h' r' = mutate_all ms (deref h r)"
proof (induction ms arbitrary: r h)
  case Nil
  then show ?case by simp
next
  case (Cons m ms)
  obtain r1 h1 where s: "h_mutate m (r, h) = (r1, h1)" by (cases "h_mutate m (r, h)")
  from h_mutate_sound [OF s]
  have p: "prefix h h1" and d: "deref h1 r1 = mutate m (deref h r)" by simp_all
  from Cons.prems s have "h_mutations ms (r1, h1) = (r', h')" by simp
  from Cons.IH [OF this] h_mutate_sound [OF s]
  have "prefix h1 h'" and "deref h' r' = mutate_all ms (deref h1 r1)"
    by simp_all
  with p d show ?case by auto
qed

lemma h_visible_sound:
  "r < length h \<Longrightarrow> h_visible n r h = (v, h1) \<Longrightarrow>
     v \<noteq> r \<and> v < length h1 \<and> prefix h h1 \<and> deref h1 v = visible n (deref h r)"
  by (auto simp: h_visible_def alloc_def deref_def visible_def nth_append Let_def)

text \<open>
  C4, as the code has it. For a limit \<open>n \<ge> 0\<close> the visible window is the first
  \<open>min n (length s)\<close> entries of the store; for \<open>n < 0\<close> it is the store without its
  last \<open>- n\<close> entries; in both cases a prefix of the store. The window is a newly
  allocated array, not the store's: it holds that prefix when it is taken, the store's array
  is untouched, and after any sequence of later mutations it still holds what it held,
  while the store's reference has moved on to the mutated sequence.
\<close>

theorem visible_snapshot:
  "(0 \<le> n \<longrightarrow> visible n s = take (nat (min n (int (length s)))) s
              \<and> int (length (visible n s)) = min n (int (length s)))
   \<and> (n < 0 \<longrightarrow> visible n s = take (nat (int (length s) + n)) s)
   \<and> prefix (visible n s) s
   \<and> (r < length h \<longrightarrow>
        (case h_visible n r h of (v, h1) \<Rightarrow>
           v \<noteq> r \<and> deref h1 v = visible n (deref h r) \<and> deref h1 r = deref h r
           \<and> (case h_mutations ms (r, h1) of (r', h') \<Rightarrow>
                deref h' v = visible n (deref h r)
                \<and> deref h' r' = mutate_all ms (deref h r))))"
proof -
  have 1: "0 \<le> n \<longrightarrow> visible n s = take (nat (min n (int (length s)))) s
              \<and> int (length (visible n s)) = min n (int (length s))"
    by (auto simp: visible_eq min_def)
  have 2: "n < 0 \<longrightarrow> visible n s = take (nat (int (length s) + n)) s"
    by (simp add: visible_eq)
  have 3: "prefix (visible n s) s" by (rule visible_prefix)
  have 4: "r < length h \<longrightarrow>
        (case h_visible n r h of (v, h1) \<Rightarrow>
           v \<noteq> r \<and> deref h1 v = visible n (deref h r) \<and> deref h1 r = deref h r
           \<and> (case h_mutations ms (r, h1) of (r', h') \<Rightarrow>
                deref h' v = visible n (deref h r)
                \<and> deref h' r' = mutate_all ms (deref h r)))"
  proof
    assume r: "r < length h"
    obtain v h1 where hv: "h_visible n r h = (v, h1)" by (cases "h_visible n r h")
    obtain r' h' where hm: "h_mutations ms (r, h1) = (r', h')" by (cases "h_mutations ms (r, h1)")
    from h_visible_sound [OF r hv]
    have a: "v \<noteq> r" "v < length h1" "prefix h h1" "deref h1 v = visible n (deref h r)" by simp_all
    from r a(3) have b: "deref h1 r = deref h r" by (rule deref_prefix)
    from h_mutations_sound [OF hm]
    have c: "prefix h1 h'" "deref h' r' = mutate_all ms (deref h1 r)" by simp_all
    from a(2) c(1) have "deref h' v = deref h1 v" by (rule deref_prefix)
    with a b c hv hm
    show "case h_visible n r h of (v, h1) \<Rightarrow>
           v \<noteq> r \<and> deref h1 v = visible n (deref h r) \<and> deref h1 r = deref h r
           \<and> (case h_mutations ms (r, h1) of (r', h') \<Rightarrow>
                deref h' v = visible n (deref h r)
                \<and> deref h' r' = mutate_all ms (deref h r))"
      by simp
  qed
  from 1 2 3 4 show ?thesis by blast
qed

theorem visible_snapshot_witness:
  "(0::int) \<le> 3 \<and> (0::nat) < length [ [example_alert 4 4 ''info'', example_alert 3 3 ''info'',
        example_alert 2 2 ''info'', example_alert 1 1 ''info''] ]
   \<and> visible 3 [example_alert 4 4 ''info'', example_alert 3 3 ''info'',
        example_alert 2 2 ''info'', example_alert 1 1 ''info'']
      = [example_alert 4 4 ''info'', example_alert 3 3 ''info'', example_alert 2 2 ''info'']
   \<and> deref (snd (h_mutations [MAdd (example_alert 5 5 ''info''), MDismiss (JNum 4)]
              (0, snd (h_visible 3 0 [ [example_alert 4 4 ''info'', example_alert 3 3 ''info'',
        example_alert 2 2 ''info'', example_alert 1 1 ''info''] ]))))
        (fst (h_visible 3 0 [ [example_alert 4 4 ''info'', example_alert 3 3 ''info'',
        example_alert 2 2 ''info'', example_alert 1 1 ''info''] ]))
      = [example_alert 4 4 ''info'', example_alert 3 3 ''info'', example_alert 2 2 ''info'']"
  using visible_snapshot [of 3 "[example_alert 4 4 ''info'', example_alert 3 3 ''info'',
        example_alert 2 2 ''info'', example_alert 1 1 ''info'']" 0
        "[ [example_alert 4 4 ''info'', example_alert 3 3 ''info'',
        example_alert 2 2 ''info'', example_alert 1 1 ''info''] ]"
        "[MAdd (example_alert 5 5 ''info''), MDismiss (JNum 4)]"]
  by (simp add: split_beta deref_def)

text \<open>
  With the limit \<open>- 1\<close> and three entries the window has two entries, where the first
  \<open>min (- 1) 3\<close> entries would be none.
\<close>

theorem visible_negative_limit_counterexample:
  "visible (- 1) [example_alert 3 3 ''info'', example_alert 2 2 ''info'', example_alert 1 1 ''info'']
     = [example_alert 3 3 ''info'', example_alert 2 2 ''info'']
   \<and> take (nat (min (- 1) (int (length [example_alert 3 3 ''info'', example_alert 2 2 ''info'',
         example_alert 1 1 ''info''])))) [example_alert 3 3 ''info'', example_alert 2 2 ''info'',
         example_alert 1 1 ''info''] = []
   \<and> int (length (visible (- 1) [example_alert 3 3 ''info'', example_alert 2 2 ''info'',
         example_alert 1 1 ''info''])) \<noteq> min (- 1) (int (length [example_alert 3 3 ''info'',
         example_alert 2 2 ''info'', example_alert 1 1 ''info'']))"
  by (simp add: visible_eq)

section \<open>The notification sound\<close>

lemma head_sound_same: "head_sound v v = []"
  by (cases v) (simp_all add: head_sound_def at0_def)

lemma head_sound_visible:
  "1 \<le> m \<Longrightarrow>
     head_sound (visible m s') (visible m s)
       = (if head_changed s s' then [alert_type (hd s')] else [])"
proof (cases s')
  case Nil
  then show ?thesis by (simp add: head_sound_def head_changed_def)
next
  case (Cons a t)
  assume m: "1 \<le> m"
  then obtain rs where v: "visible m (a # t) = a # rs"
    by (auto simp: visible_eq take_Cons')
  from m have "at0 (visible m s) = at0 s" by (rule at0_visible)
  with Cons v show ?thesis
    by (simp add: head_sound_def head_changed_def at0_def)
qed

lemma sys_step_Call_proj:
  "alerts (sys_step (Call m) st) = mutate m (alerts st)"
  "maxAlerts (sys_step (Call m) st) = maxAlerts st"
  "visibleAlerts (sys_step (Call m) st) = visible (maxAlerts st) (mutate m (alerts st))"
  "played (sys_step (Call m) st)
     = played st @ head_sound (visible (maxAlerts st) (mutate m (alerts st))) (visibleAlerts st)"
  by (cases m; simp)+

lemma dismiss_keeps_head:
  "alerts st = a # s \<Longrightarrow> strict_neq (alert_id a) i \<Longrightarrow> \<not> head_changed (alerts st) (dismissAlert i (alerts st))"
  by (simp add: head_changed_def dismissAlert_def at0_def)

lemma mount_eq:
  "mount = initial"
  by (simp add: mount_def initial_def rerender_def autodismiss_cleanup_def alerts_effect_def
      autodismiss_effect_def slice0 Let_def)

lemma batch_proj:
  "alerts (batch ms st) = mutate_all ms (alerts st)"
  "maxAlerts (batch ms st) = maxAlerts st"
  "dismissed (batch ms st) = dismissed st @ dismissed_ids ms"
  "visibleAlerts (batch ms st)
     = (if ms = [] then visibleAlerts st else visible (maxAlerts st) (mutate_all ms (alerts st)))"
  "played (batch ms st)
     = (if ms = [] then played st
        else played st @ head_sound (visible (maxAlerts st) (mutate_all ms (alerts st)))
                           (visibleAlerts st))"
  by (simp_all add: batch_def)

lemma batch_single: "batch [m] st = sys_step (Call m) st"
  by (cases m) (simp_all add: batch_def add_def onDismiss_def)

lemma run_calls_batches: "run (map Call ms) st = run (map (\<lambda>m. Batch [m]) ms) st"
  by (induction ms arbitrary: st) (simp_all add: batch_single)

lemma played_batch:
  assumes "visibleAlerts st = visible (maxAlerts st) (alerts st)" and "1 \<le> maxAlerts st"
  shows "played (batch b st)
     = played st @ (if head_changed (alerts st) (mutate_all b (alerts st))
                    then [alert_type (hd (mutate_all b (alerts st)))] else [])"
proof (cases "b = []")
  case True
  have "\<not> head_changed (alerts st) (alerts st)"
    by (cases "alerts st") (simp_all add: head_changed_def at0_def)
  with True show ?thesis by (simp add: batch_def)
next
  case False
  with assms show ?thesis by (simp add: batch_proj head_sound_visible)
qed

lemma batch_in_step:
  "visibleAlerts st = visible (maxAlerts st) (alerts st) \<Longrightarrow>
     visibleAlerts (batch b st) = visible (maxAlerts (batch b st)) (alerts (batch b st))"
  by (simp add: batch_proj)

lemma played_run_batches:
  "visibleAlerts st = visible (maxAlerts st) (alerts st) \<Longrightarrow> 1 \<le> maxAlerts st \<Longrightarrow>
     played (run (map Batch bs) st) = played st @ render_sounds (alerts st) bs"
proof (induction bs arbitrary: st)
  case Nil
  then show ?case by simp
next
  case (Cons b bs)
  let ?st = "batch b st"
  have a: "visibleAlerts ?st = visible (maxAlerts ?st) (alerts ?st)"
    using Cons.prems(1) by (rule batch_in_step)
  have c: "1 \<le> maxAlerts ?st" using Cons.prems(2) by (simp add: batch_proj)
  from Cons.IH [OF a c] played_batch [OF Cons.prems, of b] show ?case
    by (simp add: batch_proj)
qed

lemma ids_identify_iff:
  "ids_identify xs
     \<longleftrightarrow> (\<forall>a\<in>set xs. \<forall>b\<in>set xs. (obj_ref a = obj_ref b) = (alert_id a = alert_id b))"
  by (simp add: ids_identify_def list_all_iff)

lemma ids_identify_mono: "set ys \<subseteq> set xs \<Longrightarrow> ids_identify xs \<Longrightarrow> ids_identify ys"
  unfolding ids_identify_iff by blast

lemma set_mutate: "set (mutate m s) \<subseteq> set s \<union> set (added [m])"
proof (cases m)
  case (MAdd a)
  have "set (take 4 s) \<subseteq> set s" by (rule set_take_subset)
  with MAdd show ?thesis by (auto simp: addAlert_eq)
next
  case (MDismiss i)
  then show ?thesis by (auto simp: dismissAlert_def)
qed

lemma added_Cons: "set (added (m # ms)) = set (added [m]) \<union> set (added ms)"
  by (cases m) auto

lemma at0_mem: "at0 xs = Some a \<Longrightarrow> a \<in> set xs"
  by (cases xs) (simp_all add: at0_def)

lemma head_changed_by_id:
  assumes "ids_identify xs" and "set s \<subseteq> set xs" and "set s' \<subseteq> set xs"
  shows "spec_head_changed s s' = head_changed s s'"
proof (cases "at0 s'")
  case None
  then show ?thesis by (cases "at0 s") (simp_all add: spec_head_changed_def head_changed_def)
next
  case (Some a)
  show ?thesis
  proof (cases "at0 s")
    case None
    with Some show ?thesis by (simp add: spec_head_changed_def head_changed_def)
  next
    case (Some b)
    from \<open>at0 s' = Some a\<close> assms(3) have "a \<in> set xs" by (auto dest: at0_mem)
    moreover from Some assms(2) have "b \<in> set xs" by (auto dest: at0_mem)
    ultimately have "(obj_ref a = obj_ref b) = (alert_id a = alert_id b)"
      using assms(1) by (simp add: ids_identify_iff)
    with Some \<open>at0 s' = Some a\<close> show ?thesis
      by (simp add: spec_head_changed_def head_changed_def)
  qed
qed

lemma spec_sounds_render_sounds:
  "ids_identify (s @ added ms) \<Longrightarrow>
     spec_sounds s ms = render_sounds s (map (\<lambda>m. [m]) ms)"
proof (induction ms arbitrary: s)
  case Nil
  then show ?case by simp
next
  case (Cons m ms)
  let ?xs = "s @ added (m # ms)"
  have sub: "set (mutate m s) \<subseteq> set ?xs"
    using set_mutate [of m s] added_Cons [of m ms] by auto
  have "set s \<subseteq> set ?xs" by simp
  with Cons.prems sub have h: "spec_head_changed s (mutate m s) = head_changed s (mutate m s)"
    by (intro head_changed_by_id [of ?xs]) simp_all
  have "set (mutate m s @ added ms) \<subseteq> set ?xs"
    using sub added_Cons [of m ms] by auto
  then have "ids_identify (mutate m s @ added ms)"
    using Cons.prems by (rule ids_identify_mono)
  from Cons.IH [OF this] h show ?case by simp
qed

text \<open>
  C2, as the code has it. On the page, with the visible window in step with the store and a
  limit of at least one alert (both hold in every state the mounted page can reach, see
  \<open>reachable_settled\<close> and \<open>reachable_maxAlerts\<close> below), the sounds played over any
  sequence of renders, each committing a batch of add and dismiss calls, are exactly: one
  per render after which the store has a head that is another object than the head before
  the render (or a head where there was none), played with that new head's \<^verbatim>\<open>type\<close>. A
  dismissal with a render of its own that leaves the head in place, as one whose id differs
  from the head's does, plays nothing. When every call has a render of its own and, among
  the alerts of the store and the added ones, the id stands for the object, this is the
  spec's contract: one sound per operation that changes the id of the head.
\<close>

theorem sound_once_per_render_head_change:
  assumes "visibleAlerts st = visible (maxAlerts st) (alerts st)" and "1 \<le> maxAlerts st"
  shows "played (run (map Batch bs) st) = played st @ render_sounds (alerts st) bs
    \<and> played (sys_step (Batch b) st)
        = played st @ (if head_changed (alerts st) (mutate_all b (alerts st))
                       then [alert_type (hd (mutate_all b (alerts st)))] else [])
    \<and> (case alerts st of
          [] \<Rightarrow> played (sys_step (Call (MDismiss i)) st) = played st
        | a # s \<Rightarrow> strict_neq (alert_id a) i
                   \<longrightarrow> played (sys_step (Call (MDismiss i)) st) = played st)
    \<and> (ids_identify (alerts st @ added ms)
         \<longrightarrow> played (run (map Call ms) st) = played st @ spec_sounds (alerts st) ms)"
proof -
  have 1: "played (run (map Batch bs) st) = played st @ render_sounds (alerts st) bs" for bs
    using assms by (rule played_run_batches)
  have 2: "played (sys_step (Batch b) st)
        = played st @ (if head_changed (alerts st) (mutate_all b (alerts st))
                       then [alert_type (hd (mutate_all b (alerts st)))] else [])" for b
    using played_batch [OF assms, of b] by simp
  have 3: "case alerts st of
          [] \<Rightarrow> played (sys_step (Call (MDismiss i)) st) = played st
        | a # s \<Rightarrow> strict_neq (alert_id a) i
                   \<longrightarrow> played (sys_step (Call (MDismiss i)) st) = played st"
  proof (cases "alerts st")
    case Nil
    then have "\<not> head_changed (alerts st) (mutate_all [MDismiss i] (alerts st))"
      by (simp add: head_changed_def dismissAlert_def)
    with 2 [of "[MDismiss i]"] Nil show ?thesis by (simp add: batch_single)
  next
    case (Cons a s)
    with 2 [of "[MDismiss i]"] dismiss_keeps_head [of st a s i] show ?thesis
      by (simp add: batch_single)
  qed
  have 4: "ids_identify (alerts st @ added ms)
         \<longrightarrow> played (run (map Call ms) st) = played st @ spec_sounds (alerts st) ms"
  proof
    assume "ids_identify (alerts st @ added ms)"
    then have "spec_sounds (alerts st) ms = render_sounds (alerts st) (map (\<lambda>m. [m]) ms)"
      by (rule spec_sounds_render_sounds)
    with 1 [of "map (\<lambda>m. [m]) ms"]
    show "played (run (map Call ms) st) = played st @ spec_sounds (alerts st) ms"
      by (simp add: run_calls_batches comp_def)
  qed
  from 1 [of bs] 2 [of b] 3 4 show ?thesis by blast
qed

theorem sound_once_per_render_head_change_witness:
  "visibleAlerts mount = visible (maxAlerts mount) (alerts mount) \<and> 1 \<le> maxAlerts mount
   \<and> played (run (map Batch [ [MAdd (example_alert 1 1 ''success''), MAdd (example_alert 2 2 ''info'')],
          [MDismiss (JNum 2)]]) mount)
       = [JStr ''info'', JStr ''success'']
   \<and> ids_identify (alerts mount @ added [MAdd (example_alert 1 1 ''success''),
          MAdd (example_alert 2 2 ''info''), MDismiss (JNum 9), MDismiss (JNum 2), MDismiss (JNum 1)])
   \<and> played (run (map Call [MAdd (example_alert 1 1 ''success''), MAdd (example_alert 2 2 ''info''),
          MDismiss (JNum 9), MDismiss (JNum 2), MDismiss (JNum 1)]) mount)
       = [JStr ''success'', JStr ''info'', JStr ''success'']"
  using sound_once_per_render_head_change [where st = mount
      and bs = "[ [MAdd (example_alert 1 1 ''success''), MAdd (example_alert 2 2 ''info'')],
          [MDismiss (JNum 2)]]"
      and ms = "[MAdd (example_alert 1 1 ''success''), MAdd (example_alert 2 2 ''info''),
          MDismiss (JNum 9), MDismiss (JNum 2), MDismiss (JNum 1)]"]
  by (simp add: mount_eq initial_def head_changed_def spec_head_changed_def ids_identify_def
      addAlert_eq dismissAlert_def strict_neq_def strict_eq_def example_alert_def at0_def)

text \<open>
  The claim as stated, one sound per operation that changes the identity (the id) of the
  head, fails in two ways. Two adds that share a render play one sound, for the second
  alert, where the contract has two. And two adds, each with its own render, of distinct
  alert objects with the same id 7 play two sounds, where the contract has one, the
  second add leaving the id of the head as it was.
\<close>

theorem sound_per_operation_counterexample:
  "played (sys_step (Batch [MAdd (example_alert 1 1 ''success''), MAdd (example_alert 2 2 ''info'')]) mount)
     = [JStr ''info'']
   \<and> spec_sounds (alerts mount) [MAdd (example_alert 1 1 ''success''), MAdd (example_alert 2 2 ''info'')]
     = [JStr ''success'', JStr ''info'']
   \<and> played (run [Call (MAdd (example_alert 1 7 ''success'')), Call (MAdd (example_alert 2 7 ''info''))] mount)
     = [JStr ''success'', JStr ''info'']
   \<and> spec_sounds (alerts mount) [MAdd (example_alert 1 7 ''success''), MAdd (example_alert 2 7 ''info'')]
     = [JStr ''success'']
   \<and> played (sys_step (Batch [MAdd (example_alert 1 1 ''success''), MAdd (example_alert 2 2 ''info'')]) mount)
     \<noteq> spec_sounds (alerts mount) [MAdd (example_alert 1 1 ''success''), MAdd (example_alert 2 2 ''info'')]
   \<and> played (run [Call (MAdd (example_alert 1 7 ''success'')), Call (MAdd (example_alert 2 7 ''info''))] mount)
     \<noteq> spec_sounds (alerts mount) [MAdd (example_alert 1 7 ''success''), MAdd (example_alert 2 7 ''info'')]"
  by (simp add: mount_eq initial_def batch_proj head_sound_def spec_head_changed_def
      addAlert_eq visible_eq example_alert_def at0_def)

text \<open>
  C10. A dismissal after which the store is empty plays no sound, although the head has
  changed from an alert to none; the visible window is empty as well.
\<close>

theorem no_sound_when_emptied:
  assumes "alerts st \<noteq> []" and "alerts (sys_step (Call (MDismiss i)) st) = []"
  shows "played (sys_step (Call (MDismiss i)) st) = played st
    \<and> visibleAlerts (sys_step (Call (MDismiss i)) st) = []
    \<and> at0 (alerts (sys_step (Call (MDismiss i)) st)) \<noteq> at0 (alerts st)"
proof -
  from assms(2) have e: "dismissAlert i (alerts st) = []" by simp
  from assms(1) obtain a s where "alerts st = a # s" by (cases "alerts st") auto
  with e show ?thesis by (simp add: head_sound_def at0_def)
qed

theorem no_sound_when_emptied_witness:
  "alerts (add (example_alert 1 1 ''info'') mount) \<noteq> []
   \<and> alerts (sys_step (Call (MDismiss (JNum 1))) (add (example_alert 1 1 ''info'') mount)) = []
   \<and> played (sys_step (Call (MDismiss (JNum 1))) (add (example_alert 1 1 ''info'') mount))
       = played (add (example_alert 1 1 ''info'') mount)"
  using no_sound_when_emptied [of "add (example_alert 1 1 ''info'') mount" "JNum 1"]
  by (simp add: mount_eq initial_def addAlert_eq dismissAlert_def
      strict_neq_def strict_eq_def example_alert_def)

text \<open>
  C7. Dismissing the same id twice in a row gives the store that one dismissal gives,
  whatever ids collide in it; and on the page the store, the visible window and the sounds
  played are after the second call what they were after the first.
\<close>

theorem dismiss_idempotent:
  "dismissAlert i (dismissAlert i s) = dismissAlert i s
   \<and> alerts (sys_step (Call (MDismiss i)) (sys_step (Call (MDismiss i)) st))
       = alerts (sys_step (Call (MDismiss i)) st)
   \<and> visibleAlerts (sys_step (Call (MDismiss i)) (sys_step (Call (MDismiss i)) st))
       = visibleAlerts (sys_step (Call (MDismiss i)) st)
   \<and> played (sys_step (Call (MDismiss i)) (sys_step (Call (MDismiss i)) st))
       = played (sys_step (Call (MDismiss i)) st)"
proof -
  have d: "dismissAlert i (dismissAlert i s) = dismissAlert i s" for s
    by (simp add: dismissAlert_def)
  then show ?thesis by (simp add: head_sound_same)
qed

section \<open>The expiry timer\<close>

lemma armed_timer_ok: "armed st \<Longrightarrow> timer_ok st"
  by (auto simp: armed_def timer_ok_def split: list.splits)

lemma timer_ok_owned: "timer_ok st \<Longrightarrow> owned st"
  by (auto simp: owned_def timer_ok_def split: list.splits)

lemma autodismiss_cleanup_timers: "owned st \<Longrightarrow> timers (autodismiss_cleanup st) = []"
  by (cases "cleanup st") (auto simp: owned_def autodismiss_cleanup_def list_all_iff filter_empty_conv)

lemma autodismiss_effect_timers:
  "timers (autodismiss_effect vis st)
     = (if vis = [] then timers st
        else timers st @ [\<lparr>tid = next_tid st, remaining = 10000, captured = vis\<rparr>])"
  "cleanup (autodismiss_effect vis st) = (if vis = [] then None else Some (next_tid st))"
  "next_tid (autodismiss_effect vis st) = (if vis = [] then next_tid st else Suc (next_tid st))"
  by (simp_all add: autodismiss_effect_def setTimeout_def)

lemma autodismiss_rearm:
  "timers st = [] \<Longrightarrow> armed (autodismiss_effect (visibleAlerts st) st)"
  by (simp add: armed_def autodismiss_effect_timers)

lemma cleanup_after_effect:
  "timers st = [] \<Longrightarrow> timers (autodismiss_cleanup (autodismiss_effect vis st)) = []"
  by (simp add: autodismiss_cleanup_def autodismiss_effect_timers)

lemma rerender_armed: "owned st \<Longrightarrow> armed (rerender b st)"
proof -
  assume o: "owned st"
  let ?st1 = "autodismiss_cleanup st"
  from o have t1: "timers ?st1 = []" by (rule autodismiss_cleanup_timers)
  show ?thesis
  proof (cases b)
    case False
    from t1 have "armed (autodismiss_effect (visibleAlerts ?st1) ?st1)" by (rule autodismiss_rearm)
    with False show ?thesis by (simp add: rerender_def Let_def)
  next
    case True
    let ?st2 = "alerts_effect (visibleAlerts st) ?st1"
    let ?st3 = "autodismiss_effect (visibleAlerts st) ?st2"
    from t1 have "timers ?st2 = []" by simp
    then have "timers (autodismiss_cleanup ?st3) = []" by (rule cleanup_after_effect)
    then have "armed (autodismiss_effect (visibleAlerts (autodismiss_cleanup ?st3)) (autodismiss_cleanup ?st3))"
      by (rule autodismiss_rearm)
    with True show ?thesis by (simp add: rerender_def Let_def)
  qed
qed

lemma batch_armed: "ms \<noteq> [] \<Longrightarrow> owned st \<Longrightarrow> armed (batch ms st)"
  unfolding batch_def by (simp only: if_False) (rule rerender_armed, simp add: owned_def)

lemma owned_cleared: "owned (st\<lparr>timers := []\<rparr>)"
  by (simp add: owned_def)

lemma add_armed: "owned st \<Longrightarrow> armed (add a st)"
  unfolding add_def by (rule rerender_armed) (simp add: owned_def)

lemma onDismiss_armed: "owned st \<Longrightarrow> armed (onDismiss i st)"
  unfolding onDismiss_def by (rule rerender_armed) (simp add: owned_def)

lemma tick_idle: "timers st = [] \<Longrightarrow> tick st = st"
  by (simp add: tick_def)

lemma tick_wait:
  "timers st = [t] \<Longrightarrow> 1 < remaining t \<Longrightarrow>
     tick st = st\<lparr>timers := [t\<lparr>remaining := remaining t - 1\<rparr>]\<rparr>"
  by (simp add: tick_def)

lemma tick_fire:
  "timers st = [t] \<Longrightarrow> remaining t = 1 \<Longrightarrow> captured t \<noteq> [] \<Longrightarrow>
     tick st = onDismiss (alert_id (last (captured t))) (st\<lparr>timers := []\<rparr>)"
  by (simp add: tick_def fire_def timeout_callback_def clearTimeout_def)

lemma elapse_idle: "timers st = [] \<Longrightarrow> elapse n st = st"
  by (induction n) (simp_all add: tick_idle)

lemma elapse_wait:
  "timers st = [t] \<Longrightarrow> n < remaining t \<Longrightarrow>
     elapse n st = st\<lparr>timers := [t\<lparr>remaining := remaining t - n\<rparr>]\<rparr>"
proof (induction n arbitrary: st t)
  case 0
  then show ?case by simp
next
  case (Suc n)
  let ?t = "t\<lparr>remaining := remaining t - 1\<rparr>"
  from Suc.prems have tk: "tick st = st\<lparr>timers := [?t]\<rparr>" by (simp add: tick_wait)
  have "timers (st\<lparr>timers := [?t]\<rparr>) = [?t]" by simp
  moreover from Suc.prems have "n < remaining ?t" by simp
  ultimately have "elapse n (st\<lparr>timers := [?t]\<rparr>)
      = st\<lparr>timers := [?t]\<rparr>\<lparr>timers := [?t\<lparr>remaining := remaining ?t - n\<rparr>]\<rparr>"
    by (rule Suc.IH)
  with tk show ?case by simp
qed

lemma elapse_fire:
  assumes "timers st = [t]" and "0 < remaining t" and "captured t \<noteq> []"
  shows "elapse (remaining t) st = onDismiss (alert_id (last (captured t))) (st\<lparr>timers := []\<rparr>)"
proof -
  obtain k where k: "remaining t = Suc k" using assms(2) by (cases "remaining t") auto
  let ?t = "t\<lparr>remaining := remaining t - k\<rparr>"
  let ?st = "st\<lparr>timers := [?t]\<rparr>"
  from assms(1) k have "elapse k st = ?st" by (simp add: elapse_wait)
  moreover have "elapse (Suc k) st = tick (elapse k st)"
    by (induction k arbitrary: st) simp_all
  moreover from k assms(3) have "tick ?st = onDismiss (alert_id (last (captured ?t))) (?st\<lparr>timers := []\<rparr>)"
    by (intro tick_fire) simp_all
  ultimately show ?thesis using k by simp
qed

lemma settled_mount: "settled mount"
  by (simp add: mount_eq initial_def settled_def timer_ok_def)

lemma tick_settled: "settled st \<Longrightarrow> settled (tick st)"
proof -
  assume s: "settled st"
  then have ok: "timer_ok st" and v: "visibleAlerts st = visible (maxAlerts st) (alerts st)"
    by (simp_all add: settled_def)
  show ?thesis
  proof (cases "timers st")
    case Nil
    with s show ?thesis by (simp add: tick_idle)
  next
    case (Cons t ts)
    with ok have ts: "timers st = [t]" and r: "0 < remaining t" "remaining t \<le> 10000"
      and c: "captured t = visibleAlerts st" "visibleAlerts st \<noteq> []" "cleanup st = Some (tid t)"
      by (auto simp: timer_ok_def split: list.splits)
    show ?thesis
    proof (cases "remaining t = 1")
      case True
      with ts c have "tick st = onDismiss (alert_id (last (captured t))) (st\<lparr>timers := []\<rparr>)"
        by (simp add: tick_fire)
      moreover have "armed (onDismiss (alert_id (last (captured t))) (st\<lparr>timers := []\<rparr>))"
        by (rule onDismiss_armed) (rule owned_cleared)
      ultimately show ?thesis by (simp add: settled_def armed_timer_ok)
    next
      case False
      with r have "1 < remaining t" by simp
      with ts have "tick st = st\<lparr>timers := [t\<lparr>remaining := remaining t - 1\<rparr>]\<rparr>"
        by (rule tick_wait)
      with v c r \<open>1 < remaining t\<close> show ?thesis by (simp add: settled_def timer_ok_def)
    qed
  qed
qed

lemma elapse_settled: "settled st \<Longrightarrow> settled (elapse n st)"
  by (induction n arbitrary: st) (simp_all add: tick_settled)

lemma sys_step_settled: "settled st \<Longrightarrow> settled (sys_step e st)"
proof (cases e)
  case (Call m)
  assume "settled st"
  then have "owned st" by (simp add: settled_def timer_ok_owned)
  then have "armed (sys_step (Call m) st)" by (cases m) (simp_all add: add_armed onDismiss_armed)
  with Call show ?thesis by (simp add: settled_def armed_timer_ok sys_step_Call_proj)
next
  case (Batch ms)
  assume s: "settled st"
  show ?thesis
  proof (cases "ms = []")
    case True
    with Batch s show ?thesis by (simp add: batch_def)
  next
    case False
    from s have "owned st" by (simp add: settled_def timer_ok_owned)
    with False have "armed (batch ms st)" by (rule batch_armed)
    with Batch False show ?thesis by (simp add: settled_def armed_timer_ok batch_proj)
  qed
next
  case ParentRender
  assume s: "settled st"
  then have "owned st" by (simp add: settled_def timer_ok_owned)
  then have "armed (rerender False st)" by (rule rerender_armed)
  with ParentRender s show ?thesis by (simp add: settled_def armed_timer_ok)
next
  case (Elapse n)
  assume "settled st"
  with Elapse show ?thesis by (simp add: elapse_settled)
qed

lemma run_settled: "settled st \<Longrightarrow> settled (run es st)"
  by (induction es arbitrary: st) (simp_all add: sys_step_settled)

lemma reachable_settled: "settled (run es mount)"
  by (rule run_settled) (rule settled_mount)

lemma fire_maxAlerts: "maxAlerts (fire t st) = maxAlerts st"
  by (simp add: fire_def timeout_callback_def)

lemma fires_maxAlerts: "maxAlerts (foldl (\<lambda>s t. fire t s) st ts) = maxAlerts st"
  by (induction ts arbitrary: st) (simp_all add: fire_maxAlerts)

lemma elapse_maxAlerts: "maxAlerts (elapse n st) = maxAlerts st"
  by (induction n arbitrary: st) (simp_all add: tick_def fires_maxAlerts)

lemma sys_step_maxAlerts: "maxAlerts (sys_step e st) = maxAlerts st"
  by (cases e) (simp_all add: sys_step_Call_proj batch_proj elapse_maxAlerts)

lemma reachable_maxAlerts: "maxAlerts (run es mount) = 3"
proof -
  have "maxAlerts (run es st) = maxAlerts st" for st
    by (induction es arbitrary: st) (simp_all add: sys_step_maxAlerts)
  then show ?thesis by (simp add: mount_eq initial_def)
qed

lemma one_timer_iff_visible:
  "settled st \<Longrightarrow> length (timers st) = (if visibleAlerts st = [] then 0 else 1)"
  by (auto simp: settled_def timer_ok_def split: list.splits)

lemma expiry_dismisses_visible_tail:
  assumes "settled st" and "timers st = [t]"
  shows "n < remaining t \<longrightarrow> alerts (elapse n st) = alerts st \<and> dismissed (elapse n st) = dismissed st"
    and "dismissed (elapse (remaining t) st) = dismissed st @ [alert_id (last (visibleAlerts st))]"
    and "alerts (elapse (remaining t) st) = dismissAlert (alert_id (last (visibleAlerts st))) (alerts st)"
proof -
  from assms have r: "0 < remaining t" and c: "captured t = visibleAlerts st" "visibleAlerts st \<noteq> []"
    by (auto simp: settled_def timer_ok_def)
  show "n < remaining t \<longrightarrow> alerts (elapse n st) = alerts st \<and> dismissed (elapse n st) = dismissed st"
    using assms(2) by (simp add: elapse_wait)
  from assms(2) r c
  have "elapse (remaining t) st = onDismiss (alert_id (last (captured t))) (st\<lparr>timers := []\<rparr>)"
    by (intro elapse_fire) simp_all
  with c show "dismissed (elapse (remaining t) st) = dismissed st @ [alert_id (last (visibleAlerts st))]"
    and "alerts (elapse (remaining t) st) = dismissAlert (alert_id (last (visibleAlerts st))) (alerts st)"
    by simp_all
qed

lemma armed_elapse:
  assumes "armed st" and "visibleAlerts st \<noteq> []" and "n < 10000"
  shows "\<exists>t. timers st = [t] \<and> remaining t = 10000 \<and> captured t = visibleAlerts st
            \<and> cleanup st = Some (tid t)
            \<and> elapse n st = st\<lparr>timers := [t\<lparr>remaining := 10000 - n\<rparr>]\<rparr>"
proof -
  from assms(1,2) obtain t where t: "timers st = [t]" "remaining t = 10000"
      "captured t = visibleAlerts st" "cleanup st = Some (tid t)"
    by (auto simp: armed_def split: list.splits)
  with assms(3) have "elapse n st = st\<lparr>timers := [t\<lparr>remaining := remaining t - n\<rparr>]\<rparr>"
    by (intro elapse_wait) simp_all
  with t show ?thesis by simp
qed

text \<open>
  C5. The claim's timing fails on the page. At load the Dashboard adds its first alert and,
  800 ms later, renders again for \<^verbatim>\<open>setStatsVisible(true)\<close>; that render passes a new
  \<^verbatim>\<open>onDismiss\<close>, so the auto-dismiss effect clears its timeout and arms a new one of
  10000 ms. 10000 ms after the add, with no mutation of the store in between, nothing has
  been dismissed, the alert is still there and the timeout has 800 ms left. Without the
  render the same alert is dismissed at 10000 ms. (The rest of the claim holds in every
  reachable state: \<open>reachable_settled\<close>, \<open>one_timer_iff_visible\<close>,
  \<open>expiry_dismisses_visible_tail\<close>.)
\<close>

theorem parent_render_postpones_expiry:
  "dismissed (run [Call (MAdd (example_alert 1 1 ''info'')), Elapse 800, ParentRender, Elapse 9200] mount) = []
   \<and> alerts (run [Call (MAdd (example_alert 1 1 ''info'')), Elapse 800, ParentRender, Elapse 9200] mount)
       = [example_alert 1 1 ''info'']
   \<and> map remaining (timers (run [Call (MAdd (example_alert 1 1 ''info'')), Elapse 800, ParentRender, Elapse 9200] mount))
       = [800]
   \<and> dismissed (run [Call (MAdd (example_alert 1 1 ''info'')), Elapse 10000] mount) = [JNum 1]
   \<and> alerts (run [Call (MAdd (example_alert 1 1 ''info'')), Elapse 10000] mount) = []"
proof -
  let ?A = "example_alert 1 1 ''info''"
  let ?st1 = "add ?A mount"
  have o0: "owned mount" using settled_mount by (simp add: settled_def timer_ok_owned)
  have a1: "armed ?st1" using o0 by (rule add_armed)
  have al1: "alerts ?st1 = [?A]" and d1: "dismissed ?st1 = []" and v1: "visibleAlerts ?st1 = [?A]"
    by (simp_all add: mount_eq initial_def addAlert_eq visible_eq)
  from v1 have n1: "visibleAlerts ?st1 \<noteq> []" by simp
  from armed_elapse [OF a1 n1, of 800] obtain t where
    t: "timers ?st1 = [t]" "cleanup ?st1 = Some (tid t)"
       "elapse 800 ?st1 = ?st1\<lparr>timers := [t\<lparr>remaining := 10000 - 800\<rparr>]\<rparr>"
    by auto
  let ?st2 = "elapse 800 ?st1"
  from t have o2: "owned ?st2" by (simp add: owned_def)
  from t al1 d1 v1 have p2: "alerts ?st2 = [?A]" "dismissed ?st2 = []" "visibleAlerts ?st2 = [?A]"
    by simp_all
  let ?st3 = "rerender False ?st2"
  have a3: "armed ?st3" using o2 by (rule rerender_armed)
  from p2 have p3: "alerts ?st3 = [?A]" "dismissed ?st3 = []" "visibleAlerts ?st3 = [?A]"
    by simp_all
  from p3 have n3: "visibleAlerts ?st3 \<noteq> []" by simp
  from armed_elapse [OF a3 n3, of 9200] obtain u where
    u: "elapse 9200 ?st3 = ?st3\<lparr>timers := [u\<lparr>remaining := 10000 - 9200\<rparr>]\<rparr>"
    by auto
  have r: "run [Call (MAdd ?A), Elapse 800, ParentRender, Elapse 9200] mount = elapse 9200 ?st3"
    by simp
  have A: "dismissed (elapse 9200 ?st3) = []" "alerts (elapse 9200 ?st3) = [?A]"
     "map remaining (timers (elapse 9200 ?st3)) = [800]"
    unfolding u using p3 by simp_all
  from armed_elapse [OF a1 n1, of 0] obtain t' where
    t': "timers ?st1 = [t']" "remaining t' = 10000" "captured t' = visibleAlerts ?st1"
    by auto
  have s1: "settled ?st1" using sys_step_settled [OF settled_mount, of "Call (MAdd ?A)"] by simp
  from expiry_dismisses_visible_tail(2,3) [OF s1 t'(1)] t'(2) v1 al1 d1
  have B: "dismissed (elapse 10000 ?st1) = [JNum 1]" "alerts (elapse 10000 ?st1) = []"
    by (simp_all add: example_alert_def dismissAlert_def strict_neq_def strict_eq_def)
  have r': "run [Call (MAdd ?A), Elapse 10000] mount = elapse 10000 ?st1" by simp
  show ?thesis unfolding r r' using A B by simp
qed

end
